theory Spec2Isabelle
  imports Main "HOL-Library.Sublist" "HOL-Library.Multiset"
begin

section \<open>Python strings and errors\<close>

text \<open>
  A Python \<open>str\<close> is modelled as a \<open>string\<close> holding its UTF-8 bytes. Every separator
  the program looks for (\<open>":"\<close>, \<open>"."\<close>) is ASCII, and UTF-8 keeps prefixes and ASCII
  bytes apart from multi-byte sequences, so \<open>split\<close>, \<open>startswith\<close> and
  \<open>removeprefix\<close> agree on code points and on bytes.

  Exceptions are values of \<open>error\<close>; a call that may raise returns \<open>error + 'a\<close>
  with \<open>Inl\<close> the exception.
\<close>

datatype error = IndexError | ValueError | TypeError | AttributeError | AdapterFailure string

text \<open>
  \<open>s.split(sep)\<close> for a one-character separator: the pieces between the separators,
  always at least one piece (\<open>"".split(":") == [""]\<close>).
\<close>

fun split :: "string \<Rightarrow> char \<Rightarrow> string list" where
  "split [] sep = [[]]"
| "split (c # cs) sep =
     (if c = sep then [] # split cs sep
      else (case split cs sep of
              [] \<Rightarrow> [[c]]
            | piece # pieces \<Rightarrow> (c # piece) # pieces))"

text \<open>\<open>xs[i]\<close> for an index that is not negative: \<open>IndexError\<close> out of range.\<close>

definition index :: "'a list \<Rightarrow> nat \<Rightarrow> error + 'a" where
  "index xs i = (if i < length xs then Inr (xs ! i) else Inl IndexError)"

text \<open>\<open>s.startswith(p)\<close> and \<open>s.removeprefix(p)\<close>.\<close>

definition startswith :: "string \<Rightarrow> string \<Rightarrow> bool" where
  "startswith s p = prefix p s"

definition removeprefix :: "string \<Rightarrow> string \<Rightarrow> string" where
  "removeprefix s p = (if startswith s p then drop (length p) s else s)"

section \<open>Identifier scheme\<close>

text \<open>
  The namespace of a library id is the inline expression \<open>library_id.split(":")[0]\<close> of
  \<open>Resolver.Search\<close>; an id is composed by the adapter as
  \<open>"{}:{}".format(PREFIX, lib["manageCode"])\<close>.
\<close>

definition namespaceOf :: "string \<Rightarrow> error + string" where
  "namespaceOf library_id = index (split library_id (CHR '':'')) 0"

definition compose :: "string \<Rightarrow> string \<Rightarrow> string" where
  "compose namespace local_id = namespace @ '':'' @ local_id"

section \<open>Data model\<close>

text \<open>
  The internal \<open>Library\<close> of \<open>app.core\<close> (imported as \<open>ServiceLibrary\<close>) and the wire
  \<open>Library\<close> and \<open>LatLng\<close> messages. The floating-point type of the coordinates is the
  parameter \<open>'f\<close>: the program only copies these values. A message field that is not
  set is \<open>None\<close>.
\<close>

record 'f Coordinate =
  latitude :: 'f
  longitude :: 'f

record 'f ServiceLibrary =
  lib_id :: string
  lib_name :: string
  lib_coordinate :: "'f Coordinate option"

record 'f LatLng =
  latlng_latitude :: 'f
  latlng_longitude :: 'f

record 'f Library =
  wire_id :: string
  wire_name :: string
  resolver_id :: string
  wire_coordinate :: "'f LatLng option"

record 'f GetLibrariesResponse =
  libraries :: "'f Library list"

record SearchRequest =
  request_term :: string
  request_library_ids :: "string list"

record 'a SearchResponse =
  entities :: "'a list"

text \<open>
  An asynchronous stream that has run to its end: the items it yielded, in order, and
  \<open>None\<close> when it then completed or \<open>Some e\<close> when it then raised \<open>e\<close>.
\<close>

type_synonym 'a astream = "'a list \<times> error option"

text \<open>
  A registered adapter (\<open>Service\<close> of \<open>app.core\<close>): the outcome of awaiting its
  \<open>get_libraries()\<close>, and its \<open>search(keyword, library_ids)\<close>, an asynchronous
  generator. The registry \<open>services\<close> is a dictionary from the adapter's name to the
  adapter; \<open>services.items()\<close> is its list of pairs in insertion order.
\<close>

record ('f, 'a) Service =
  get_libraries :: "error + 'f ServiceLibrary list"
  search :: "string \<Rightarrow> string set \<Rightarrow> 'a astream"

type_synonym ('f, 'a) registry = "(string \<times> ('f, 'a) Service) list"

section \<open>Conversion layer\<close>

definition convert_library :: "'f ServiceLibrary \<Rightarrow> 'f Library" where
  "convert_library lib =
     \<lparr>wire_id = lib_id lib,
      wire_name = lib_name lib,
      resolver_id = ''json-py'',
      wire_coordinate =
        (case lib_coordinate lib of
           Some c \<Rightarrow> Some \<lparr>latlng_latitude = latitude c, latlng_longitude = longitude c\<rparr>
         | None \<Rightarrow> None)\<rparr>"

section \<open>Bulk listing\<close>

text \<open>
  \<open>asyncio.gather(*aws)\<close> without \<open>return_exceptions\<close>: the list of all results, in
  the order of the awaitables, when every one succeeds; otherwise the exception of the
  awaitable that fails first in time, which may be any of those that fail. The
  outcomes of the awaitables are given, so \<open>gather\<close> is a relation between them and
  the outcome of the whole.
\<close>

inductive gather :: "(error + 'a) list \<Rightarrow> error + 'a list \<Rightarrow> bool" where
  gather_all: "gather (map Inr results) (Inr results)"
| gather_raise: "Inl e \<in> set outcomes \<Longrightarrow> gather outcomes (Inl e)"

inductive GetLibraries ::
  "('f, 'a) registry \<Rightarrow> error + 'f GetLibrariesResponse \<Rightarrow> bool" where
  GetLibraries_return:
    "gather [get_libraries service. (_, service) \<leftarrow> services] (Inr results) \<Longrightarrow>
     GetLibraries services
       (Inr \<lparr>libraries =
          [convert_library library. libs \<leftarrow> results, library \<leftarrow> libs]\<rparr>)"
| GetLibraries_raise:
    "gather [get_libraries service. (_, service) \<leftarrow> services] (Inl e) \<Longrightarrow>
     GetLibraries services (Inl e)"

section \<open>Streaming search\<close>

text \<open>
  \<open>service_ids = set(library_id.split(":")[0] for library_id in library_ids)\<close>: the
  set of the namespaces, or the exception of an id whose namespace raises.
\<close>

definition service_ids_of :: "string set \<Rightarrow> error + string set" where
  "service_ids_of library_ids =
     (if Inl IndexError \<in> namespaceOf ` library_ids then Inl IndexError
      else Inr (\<Union>r \<in> namespaceOf ` library_ids. case r of Inl _ \<Rightarrow> {} | Inr n \<Rightarrow> {n}))"

text \<open>
  The calls \<open>service.search(request.term, {...})\<close> that \<open>Resolver.Search\<close> makes, in
  the order of the registry: the adapter's name, the adapter, and the two arguments.
\<close>

definition search_calls ::
  "('f, 'a) registry \<Rightarrow> SearchRequest \<Rightarrow>
   error + (string \<times> ('f, 'a) Service \<times> string \<times> string set) list" where
  "search_calls services request =
     (let library_ids = set (if request_library_ids request = [] then [] else request_library_ids request)
      in case service_ids_of library_ids of
           Inl e \<Rightarrow> Inl e
         | Inr service_ids \<Rightarrow>
             Inr [(name, service, request_term request,
                   {library_id \<in> library_ids. startswith library_id (name @ '':'')}).
                  (name, service) \<leftarrow> services, name \<in> service_ids])"

definition invoke :: "string \<times> ('f, 'a) Service \<times> string \<times> string set \<Rightarrow> 'a astream" where
  "invoke call = (case call of (name, service, keyword, ids) \<Rightarrow> search service keyword ids)"

text \<open>
  \<open>stream.merge(*sources)\<close> of aiostream: the sources run side by side and an item is
  forwarded as soon as any source has one, so the merged stream is an interleaving of
  the sources, chosen by timing. When a source raises, the merged stream raises the
  same exception there and the other sources are abandoned. It completes when every
  source has completed. With no source at all, releases of aiostream differ: the merged
  stream is empty, or the call is refused with a \<open>TypeError\<close> for its missing first
  source; the relation allows both.
\<close>

inductive merge :: "'a astream list \<Rightarrow> 'a astream \<Rightarrow> bool" where
  merge_done: "sources = replicate n ([], None) \<Longrightarrow> merge sources ([], None)"
| merge_no_source: "merge [] ([], Some TypeError)"
| merge_item:
    "i < length sources \<Longrightarrow> sources ! i = (x # xs, r) \<Longrightarrow>
     merge (sources[i := (xs, r)]) (out, r') \<Longrightarrow> merge sources (x # out, r')"
| merge_raise:
    "i < length sources \<Longrightarrow> sources ! i = ([], Some e) \<Longrightarrow> merge sources ([], Some e)"

inductive Search ::
  "('f, 'a) registry \<Rightarrow> SearchRequest \<Rightarrow> 'a SearchResponse astream \<Rightarrow> bool" where
  Search_stream:
    "search_calls services request = Inr calls \<Longrightarrow>
     merge (map invoke calls) (merged, r) \<Longrightarrow>
     Search services request ([\<lparr>entities = [entity]\<rparr>. entity \<leftarrow> merged], r)"
| Search_raise:
    "search_calls services request = Inl e \<Longrightarrow> Search services request ([], Some e)"

section \<open>The Seoul Seocho adapter\<close>

definition PREFIX :: string where
  "PREFIX = ''seoul-seocho''"

text \<open>
  The dictionaries of the upstream's JSON answer, as records of the keys the adapter
  reads, at the types it uses them with. \<open>returnPlanDate\<close> is \<open>None\<close> for JSON
  \<open>null\<close>.
\<close>

record lib_dict =
  lib_manageCode :: string
  libName :: string

record book_dict =
  isbn :: string
  originalTitle :: string
  originalAuthor :: string
  originalPublisher :: string
  manageCode :: string
  regCodeDesc :: string
  callNo :: string
  reservationCount :: int
  isActiveResvYn :: string
  loanStatus :: string
  workingStatus :: string
  returnPlanDate :: "string option"

text \<open>The messages of a search result. A status variant that is not set is \<open>None\<close>.\<close>

record Date =
  year :: int
  month :: int
  day :: int

record DateTime =
  date :: Date

record AvailableStatus =
  available_detail :: string

record OnLoanStatus =
  on_loan_detail :: string
  on_loan_due :: "DateTime option"

record UnavailableStatus =
  unavailable_detail :: string

record HoldingStatus =
  available :: "AvailableStatus option"
  on_loan :: "OnLoanStatus option"
  unavailable :: "UnavailableStatus option"
  is_requested :: bool
  requests :: int
  requests_available :: bool

record HoldingSummary =
  holding_library_id :: string
  location :: string
  call_number :: string
  status :: HoldingStatus

record Book =
  book_isbn :: string
  book_title :: string
  book_author :: string
  book_publisher :: string

record SearchEntity =
  book :: Book
  holding_summaries :: "HoldingSummary list"

text \<open>
  \<open>get_libraries\<close>, from \<open>root["contents"]["libList"]\<close> of the upstream's answer.
  \<open>Library(id=..., name=...)\<close> names no coordinate, which is then absent.
\<close>

definition seocho_get_libraries :: "lib_dict list \<Rightarrow> 'f ServiceLibrary list" where
  "seocho_get_libraries libList =
     [\<lparr>lib_id = compose PREFIX (lib_manageCode lib), lib_name = libName lib,
       lib_coordinate = None\<rparr>.
      lib \<leftarrow> libList, lib_manageCode lib \<noteq> ''ALL'']"

text \<open>
  The \<open>manageCode\<close> list that \<open>search\<close> posts to the upstream, for the ids in the
  order the adapter iterates them.
\<close>

definition search_manageCode :: "string list \<Rightarrow> string list" where
  "search_manageCode library_ids = [removeprefix lid ''seoul-seocho:''. lid \<leftarrow> library_ids]"

text \<open>
  Two things the adapter calls are not part of the program and are parameters of the
  model. \<open>py_int\<close> is Python's \<open>int(x)\<close> on a string: its value, or \<open>ValueError\<close>; its
  grammar takes in the decimal digits and the white space of every script.
  \<open>field_in_range\<close> is the check that the constructor of a protobuf message makes on an
  integer field, by the field's name: it raises \<open>ValueError\<close> for a value outside the
  field's type.
\<close>

record externals =
  py_int :: "string \<Rightarrow> error + int"
  field_in_range :: "string \<Rightarrow> int \<Rightarrow> bool"

text \<open>A list comprehension \<open>[f(x) for x in xs]\<close> whose \<open>f\<close> may raise.\<close>

fun comprehension :: "('a \<Rightarrow> error + 'b) \<Rightarrow> 'a list \<Rightarrow> error + 'b list" where
  "comprehension f [] = Inr []"
| "comprehension f (x # xs) =
     (case f x of
        Inl e \<Rightarrow> Inl e
      | Inr y \<Rightarrow> (case comprehension f xs of Inl e \<Rightarrow> Inl e | Inr ys \<Rightarrow> Inr (y # ys)))"

text \<open>
  \<open>_parse_due\<close>; \<open>None.split\<close> raises \<open>AttributeError\<close>, and \<open>Date(...)\<close> checks its
  three fields once all three parts are read.
\<close>

definition parse_due :: "externals \<Rightarrow> string option \<Rightarrow> error + DateTime" where
  "parse_due ext due =
     (case due of
        None \<Rightarrow> Inl AttributeError
      | Some d \<Rightarrow>
          (case comprehension (py_int ext) (split d (CHR ''.'')) of
             Inl e \<Rightarrow> Inl e
           | Inr parts \<Rightarrow>
               (case index parts 0 of
                  Inl e \<Rightarrow> Inl e
                | Inr y \<Rightarrow>
                    (case index parts 1 of
                       Inl e \<Rightarrow> Inl e
                     | Inr m \<Rightarrow>
                         (case index parts 2 of
                            Inl e \<Rightarrow> Inl e
                          | Inr dd \<Rightarrow>
                              if field_in_range ext ''year'' y \<and>
                                 field_in_range ext ''month'' m \<and>
                                 field_in_range ext ''day'' dd
                              then Inr \<lparr>date = \<lparr>year = y, month = m, day = dd\<rparr>\<rparr>
                              else Inl ValueError)))))"

text \<open>
  The literals of \<open>_parse_state\<close>, in UTF-8: the loan status "loan possible", the
  prefix "loan not possible", and the working statuses "on loan" and "on interlibrary
  loan".
\<close>

definition LOAN_POSSIBLE :: string where
  "LOAN_POSSIBLE =
     [CHR 0xEB, CHR 0x8C, CHR 0x80, CHR 0xEC, CHR 0xB6, CHR 0x9C,
      CHR 0xEA, CHR 0xB0, CHR 0x80, CHR 0xEB, CHR 0x8A, CHR 0xA5]"

definition LOAN_NOT_POSSIBLE :: string where
  "LOAN_NOT_POSSIBLE =
     [CHR 0xEB, CHR 0x8C, CHR 0x80, CHR 0xEC, CHR 0xB6, CHR 0x9C,
      CHR 0xEB, CHR 0xB6, CHR 0x88, CHR 0xEA, CHR 0xB0, CHR 0x80]"

definition ON_LOAN :: string where
  "ON_LOAN =
     [CHR 0xEB, CHR 0x8C, CHR 0x80, CHR 0xEC, CHR 0xB6, CHR 0x9C,
      CHR 0xEC, CHR 0xA4, CHR 0x91]"

definition ON_INTERLIBRARY_LOAN :: string where
  "ON_INTERLIBRARY_LOAN =
     [CHR 0xEC, CHR 0x83, CHR 0x81, CHR 0xED, CHR 0x98, CHR 0xB8,
      CHR 0xEB, CHR 0x8C, CHR 0x80, CHR 0xEC, CHR 0xB0, CHR 0xA8,
      CHR 0xEC, CHR 0xA4, CHR 0x91]"

text \<open>
  The constructor \<open>HoldingStatus(..., **common)\<close>: it checks the integer field
  \<open>requests\<close>, after its arguments are evaluated.
\<close>

definition HoldingStatus_init :: "externals \<Rightarrow> HoldingStatus \<Rightarrow> error + HoldingStatus" where
  "HoldingStatus_init ext st =
     (if field_in_range ext ''requests'' (requests st) then Inr st else Inl ValueError)"

text \<open>
  \<open>_parse_state\<close>. \<open>common\<close> is the status with the three shared fields set and no
  variant; each \<open>return\<close> sets one variant on it.
\<close>

definition parse_state :: "externals \<Rightarrow> book_dict \<Rightarrow> error + HoldingStatus" where
  "parse_state ext b =
     (let common =
            \<lparr>available = None, on_loan = None, unavailable = None,
             is_requested = (reservationCount b > 0),
             requests = reservationCount b,
             requests_available = (isActiveResvYn b = ''Y'')\<rparr>;
          loan_status = loanStatus b;
          fall_through =
            HoldingStatus_init ext
              (common\<lparr>unavailable := Some \<lparr>unavailable_detail = workingStatus b\<rparr>\<rparr>)
      in if loan_status = LOAN_POSSIBLE then
           HoldingStatus_init ext
             (common\<lparr>available := Some \<lparr>available_detail = workingStatus b\<rparr>\<rparr>)
         else if startswith loan_status LOAN_NOT_POSSIBLE then
           (if workingStatus b = ON_LOAN \<or> workingStatus b = ON_INTERLIBRARY_LOAN then
              (case parse_due ext (returnPlanDate b) of
                 Inl e \<Rightarrow> Inl e
               | Inr d \<Rightarrow>
                   HoldingStatus_init ext
                     (common\<lparr>on_loan :=
                        Some \<lparr>on_loan_detail = workingStatus b, on_loan_due = Some d\<rparr>\<rparr>))
            else fall_through)
         else fall_through)"

text \<open>
  The generator body of \<open>search\<close>, over \<open>root["contents"]["bookList"]\<close>: one entity
  for each book, until \<open>_parse_state\<close> raises.
\<close>

fun search_entities :: "externals \<Rightarrow> book_dict list \<Rightarrow> SearchEntity astream" where
  "search_entities ext [] = ([], None)"
| "search_entities ext (b # bs) =
     (case parse_state ext b of
        Inl e \<Rightarrow> ([], Some e)
      | Inr st \<Rightarrow>
          (case search_entities ext bs of
             (rest, r) \<Rightarrow>
               (\<lparr>book = \<lparr>book_isbn = isbn b, book_title = originalTitle b,
                          book_author = originalAuthor b,
                          book_publisher = originalPublisher b\<rparr>,
                  holding_summaries =
                    [\<lparr>holding_library_id = compose PREFIX (manageCode b),
                      location = regCodeDesc b, call_number = callNo b,
                      status = st\<rparr>]\<rparr> # rest, r)))"

text \<open>The number of variants that are set in a status.\<close>

definition variants_set :: "HoldingStatus \<Rightarrow> nat" where
  "variants_set st =
     (if available st = None then 0 else 1) + (if on_loan st = None then 0 else 1)
       + (if unavailable st = None then 0 else 1)"

section \<open>An example registry\<close>

text \<open>
  Three adapters for the examples below: \<open>a\<close> with two libraries, \<open>b\<close> with one, and
  one whose upstream cannot be reached.
\<close>

definition example_library :: "string \<Rightarrow> int ServiceLibrary" where
  "example_library i = \<lparr>lib_id = i, lib_name = ''Library '' @ i, lib_coordinate = None\<rparr>"

definition example_a :: "(int, string) Service" where
  "example_a =
     \<lparr>get_libraries = Inr [example_library ''a:1'', example_library ''a:2''],
      search = (\<lambda>keyword ids. ([''x1'', ''x2''], None))\<rparr>"

definition example_b :: "(int, string) Service" where
  "example_b =
     \<lparr>get_libraries = Inr [example_library ''b:1''],
      search = (\<lambda>keyword ids. ([''y1''], None))\<rparr>"

definition example_down :: "(int, string) Service" where
  "example_down =
     \<lparr>get_libraries = Inl (AdapterFailure ''unreachable''),
      search = (\<lambda>keyword ids. ([], Some (AdapterFailure ''unreachable'')))\<rparr>"

text \<open>
  An adapter whose search yields one entity, which records the adapter's name and the
  two arguments of the call.
\<close>

definition example_echo :: "string \<Rightarrow> (int, string \<times> string \<times> string set) Service" where
  "example_echo name =
     \<lparr>get_libraries = Inr [],
      search = (\<lambda>keyword ids. ([(name, keyword, ids)], None))\<rparr>"

text \<open>
  Parameters for the examples below. \<open>example_int\<close> is \<open>int(x)\<close> on the strings the
  examples give it, which are strings of ASCII digits that are not empty; the fields
  are taken to hold 32 bits.
\<close>

fun digits_value :: "string \<Rightarrow> int \<Rightarrow> int option" where
  "digits_value [] acc = Some acc"
| "digits_value (c # cs) acc =
     (if c \<in> set ''0123456789'' then digits_value cs (10 * acc + (of_char c - 48))
      else None)"

definition example_int :: "string \<Rightarrow> error + int" where
  "example_int x =
     (case (if x = [] then None else digits_value x 0) of
        None \<Rightarrow> Inl ValueError
      | Some n \<Rightarrow> Inr n)"

definition example_externals :: externals where
  "example_externals =
     \<lparr>py_int = example_int,
      field_in_range = (\<lambda>field n. - 2147483648 \<le> n \<and> n \<le> 2147483647)\<rparr>"

text \<open>A record of the upstream's book list, for the examples below.\<close>

definition example_book :: "int \<Rightarrow> string \<Rightarrow> string \<Rightarrow> string option \<Rightarrow> book_dict" where
  "example_book reservations loan working return_plan =
     \<lparr>isbn = ''9788936434120'', originalTitle = ''Title'', originalAuthor = ''Author'',
      originalPublisher = ''Publisher'', manageCode = ''MA'', regCodeDesc = ''Stacks'',
      callNo = ''813.7'', reservationCount = reservations, isActiveResvYn = ''Y'',
      loanStatus = loan, workingStatus = working, returnPlanDate = return_plan\<rparr>"

section \<open>Properties of the identifier scheme\<close>

lemma split_nonempty: "split s sep \<noteq> []"
  by (induction s) (auto split: list.splits)

lemma split_head: "\<exists>rest. split s sep = takeWhile (\<lambda>c. c \<noteq> sep) s # rest"
  by (induction s) (auto split: list.splits)

lemma namespaceOf_takeWhile:
  "namespaceOf s = Inr (takeWhile (\<lambda>c. c \<noteq> CHR '':'') s)"
proof -
  obtain rest where "split s (CHR '':'') = takeWhile (\<lambda>c. c \<noteq> CHR '':'') s # rest"
    using split_head by blast
  then show ?thesis
    by (simp add: namespaceOf_def index_def)
qed

lemma takeWhile_no_sep:
  "sep \<notin> set p \<Longrightarrow> takeWhile (\<lambda>c. c \<noteq> sep) (p @ sep # rest) = p"
  by (induction p) auto

text \<open>
  C2, as the code has it: \<open>namespaceOf\<close> never fails. It returns the part of the
  identifier before the first \<open>":"\<close> when there is one, and the whole identifier when
  there is none.
\<close>

theorem namespaceOf_first_piece:
  "(CHR '':'' \<notin> set ns \<longrightarrow> namespaceOf (ns @ '':'' @ rest) = Inr ns) \<and>
   (CHR '':'' \<notin> set s \<longrightarrow> namespaceOf s = Inr s)"
  by (auto simp: namespaceOf_takeWhile takeWhile_no_sep)

theorem namespaceOf_first_piece_witness:
  "namespaceOf ''a:1:x'' = Inr ''a'' \<and> namespaceOf ''abc'' = Inr ''abc''"
  using namespaceOf_first_piece [of "''a''" "''1:x''" "''abc''"] by simp

text \<open>
  C2 as stated fails: the identifier \<open>seoul-seocho\<close> has no separator, and
  \<open>namespaceOf\<close> returns it whole instead of raising.
\<close>

theorem namespaceOf_no_separator_counterexample:
  "CHR '':'' \<notin> set ''seoul-seocho'' \<and> namespaceOf ''seoul-seocho'' = Inr ''seoul-seocho''"
  by (simp add: namespaceOf_takeWhile)

text \<open>
  C6: for a namespace \<open>ns\<close> without \<open>":"\<close> and any local id, the namespace of
  \<open>compose ns local_id\<close> is \<open>ns\<close>.
\<close>

theorem namespaceOf_compose:
  "CHR '':'' \<notin> set ns \<Longrightarrow> namespaceOf (compose ns local_id) = Inr ns"
  by (simp add: compose_def namespaceOf_takeWhile takeWhile_no_sep)

theorem namespaceOf_compose_witness:
  "CHR '':'' \<notin> set PREFIX \<and> compose PREFIX ''MA'' = ''seoul-seocho:MA'' \<and>
   namespaceOf ''seoul-seocho:MA'' = Inr ''seoul-seocho''"
  using namespaceOf_compose [of PREFIX "''MA''"] by (simp add: PREFIX_def compose_def)

section \<open>Properties of the conversion layer\<close>

lemma convert_library_inj: "convert_library a = convert_library b \<Longrightarrow> a = b"
  by (cases a; cases b) (auto simp: convert_library_def split: option.splits)

text \<open>
  C8: \<open>convert_library\<close> copies the id and the name, sets the resolver id to the
  constant \<open>json-py\<close>, leaves the coordinate unset exactly when the input has none, and
  otherwise sets it to the input's latitude and longitude.
\<close>

theorem convert_library_fields:
  "wire_id (convert_library lib) = lib_id lib \<and>
   wire_name (convert_library lib) = lib_name lib \<and>
   resolver_id (convert_library lib) = ''json-py'' \<and>
   (lib_coordinate lib = None \<longleftrightarrow> wire_coordinate (convert_library lib) = None) \<and>
   (\<forall>c. lib_coordinate lib = Some c \<longrightarrow>
      wire_coordinate (convert_library lib) =
        Some \<lparr>latlng_latitude = latitude c, latlng_longitude = longitude c\<rparr>)"
  by (simp add: convert_library_def split: option.splits)

theorem convert_library_fields_witness:
  "convert_library \<lparr>lib_id = ''a:1'', lib_name = ''Main'',
      lib_coordinate = Some \<lparr>latitude = (0::int), longitude = 0\<rparr>\<rparr> =
     \<lparr>wire_id = ''a:1'', wire_name = ''Main'', resolver_id = ''json-py'',
      wire_coordinate = Some \<lparr>latlng_latitude = 0, latlng_longitude = 0\<rparr>\<rparr> \<and>
   wire_coordinate (convert_library \<lparr>lib_id = ''a:2'', lib_name = ''Branch'',
      lib_coordinate = (None :: int Coordinate option)\<rparr>) = None"
  using convert_library_fields [of "\<lparr>lib_id = ''a:1'', lib_name = ''Main'',
      lib_coordinate = Some \<lparr>latitude = (0::int), longitude = 0\<rparr>\<rparr>"]
    convert_library_fields [of "\<lparr>lib_id = ''a:2'', lib_name = ''Branch'',
      lib_coordinate = (None :: int Coordinate option)\<rparr>"]
  by (simp add: convert_library_def)

section \<open>Properties of bulk listing\<close>

lemma listing_outcomes:
  "[get_libraries service. (_, service) \<leftarrow> services] = map (\<lambda>p. get_libraries (snd p)) services"
  by (induction services) auto

lemma gather_Inr_iff: "gather outcomes (Inr results) \<longleftrightarrow> outcomes = map Inr results"
  by (auto elim: gather.cases intro: gather.intros)

lemma gather_Inl_iff: "gather outcomes (Inl e) \<longleftrightarrow> Inl e \<in> set outcomes"
  by (auto elim: gather.cases intro: gather.intros)

lemma GetLibraries_Inl_iff:
  "GetLibraries services (Inl e) \<longleftrightarrow> (\<exists>p \<in> set services. get_libraries (snd p) = Inl e)"
proof
  assume "GetLibraries services (Inl e)"
  then have "gather [get_libraries service. (_, service) \<leftarrow> services] (Inl e)"
    by (rule GetLibraries.cases) auto
  then have "Inl e \<in> set (map (\<lambda>p. get_libraries (snd p)) services)"
    by (simp add: listing_outcomes gather_Inl_iff)
  then obtain p where "p \<in> set services" and "Inl e = get_libraries (snd p)"
    by auto
  then show "\<exists>p \<in> set services. get_libraries (snd p) = Inl e"
    by (intro bexI [of _ p]) simp_all
next
  assume "\<exists>p \<in> set services. get_libraries (snd p) = Inl e"
  then have "Inl e \<in> set (map (\<lambda>p. get_libraries (snd p)) services)"
    by force
  then have "gather [get_libraries service. (_, service) \<leftarrow> services] (Inl e)"
    by (simp add: listing_outcomes gather_Inl_iff)
  then show "GetLibraries services (Inl e)"
    by (rule GetLibraries_raise)
qed

lemma flatten_converted:
  "[convert_library library. libs \<leftarrow> results, library \<leftarrow> libs] =
     map convert_library (concat results)"
  by (induction results) auto

lemma GetLibraries_Inr_iff:
  "GetLibraries services (Inr resp) \<longleftrightarrow>
     (\<exists>results. map (\<lambda>p. get_libraries (snd p)) services = map Inr results \<and>
        resp = \<lparr>libraries = map convert_library (concat results)\<rparr>)"
proof
  assume "GetLibraries services (Inr resp)"
  then obtain results where
    "gather [get_libraries service. (_, service) \<leftarrow> services] (Inr results)"
    "resp = \<lparr>libraries = [convert_library library. libs \<leftarrow> results, library \<leftarrow> libs]\<rparr>"
    by (rule GetLibraries.cases) auto
  then show "\<exists>results. map (\<lambda>p. get_libraries (snd p)) services = map Inr results \<and>
        resp = \<lparr>libraries = map convert_library (concat results)\<rparr>"
    by (auto simp: listing_outcomes gather_Inr_iff flatten_converted)
next
  assume "\<exists>results. map (\<lambda>p. get_libraries (snd p)) services = map Inr results \<and>
        resp = \<lparr>libraries = map convert_library (concat results)\<rparr>"
  then obtain results where
    r: "map (\<lambda>p. get_libraries (snd p)) services = map Inr results"
    and resp: "resp = \<lparr>libraries = map convert_library (concat results)\<rparr>"
    by blast
  from r have "gather [get_libraries service. (_, service) \<leftarrow> services] (Inr results)"
    by (simp add: listing_outcomes gather_Inr_iff)
  then have "GetLibraries services
       (Inr \<lparr>libraries = [convert_library library. libs \<leftarrow> results, library \<leftarrow> libs]\<rparr>)"
    by (rule GetLibraries_return)
  then show "GetLibraries services (Inr resp)"
    by (simp add: resp flatten_converted)
qed

text \<open>A bulk listing always has an outcome.\<close>

lemma GetLibraries_total: "\<exists>out. GetLibraries services out"
proof (cases "\<exists>p \<in> set services. isl (get_libraries (snd p))")
  case True
  then obtain p e where "p \<in> set services" and "get_libraries (snd p) = Inl e"
    by (auto simp: isl_def)
  then have "GetLibraries services (Inl e)"
    unfolding GetLibraries_Inl_iff by blast
  then show ?thesis ..
next
  case False
  then have "map (\<lambda>p. get_libraries (snd p)) services =
      map Inr (map (\<lambda>p. projr (get_libraries (snd p))) services)"
    by simp
  then have "GetLibraries services (Inr \<lparr>libraries = map convert_library
      (concat (map (\<lambda>p. projr (get_libraries (snd p))) services))\<rparr>)"
    unfolding GetLibraries_Inr_iff by blast
  then show ?thesis ..
qed

text \<open>
  C4: when the listing of some registered adapter fails, \<open>GetLibraries\<close> fails: it can
  fail with that adapter's error, and every outcome it has is the error of an adapter
  whose listing failed, never a response with a partial list.
\<close>

theorem GetLibraries_fails_as_a_whole:
  assumes "(name, service) \<in> set services" and "get_libraries service = Inl e"
  shows "GetLibraries services (Inl e) \<and>
    (\<forall>out. GetLibraries services out \<longrightarrow>
       (\<exists>e' name' service'. out = Inl e' \<and> (name', service') \<in> set services \<and>
          get_libraries service' = Inl e'))"
proof (intro conjI allI impI)
  show "GetLibraries services (Inl e)"
    using assms by (force simp: GetLibraries_Inl_iff)
next
  fix out
  assume out: "GetLibraries services out"
  show "\<exists>e' name' service'. out = Inl e' \<and> (name', service') \<in> set services \<and>
          get_libraries service' = Inl e'"
  proof (cases out)
    case (Inl e')
    then show ?thesis
      using out by (force simp: GetLibraries_Inl_iff)
  next
    case (Inr resp)
    then obtain results where
      "map (\<lambda>p. get_libraries (snd p)) services = map Inr results"
      using out by (auto simp: GetLibraries_Inr_iff)
    then have "get_libraries (snd (name, service)) \<in> set (map Inr results)"
      using assms(1) by (metis image_eqI set_map)
    then show ?thesis
      using assms(2) by auto
  qed
qed


theorem GetLibraries_fails_as_a_whole_witness:
  "(''down'', example_down) \<in> set [(''a'', example_a), (''down'', example_down), (''b'', example_b)] \<and>
   get_libraries example_down = Inl (AdapterFailure ''unreachable'') \<and>
   GetLibraries [(''a'', example_a), (''down'', example_down), (''b'', example_b)]
     (Inl (AdapterFailure ''unreachable''))"
  using GetLibraries_fails_as_a_whole [of "''down''" example_down
      "[(''a'', example_a), (''down'', example_down), (''b'', example_b)]"
      "AdapterFailure ''unreachable''"]
  by (simp add: example_down_def)

lemma card_concat_disjoint:
  assumes "\<forall>i<length xss. \<forall>j<length xss. i \<noteq> j \<longrightarrow> set (xss ! i) \<inter> set (xss ! j) = {}"
  shows "card (set (concat xss)) = (\<Sum>xs\<leftarrow>xss. card (set xs))"
  using assms
proof (induction xss)
  case Nil
  then show ?case by simp
next
  case (Cons xs xss)
  have tail: "\<forall>i<length xss. \<forall>j<length xss. i \<noteq> j \<longrightarrow> set (xss ! i) \<inter> set (xss ! j) = {}"
  proof (intro allI impI)
    fix i j
    assume "i < length xss" "j < length xss" "i \<noteq> j"
    then show "set (xss ! i) \<inter> set (xss ! j) = {}"
      using Cons.prems [rule_format, of "Suc i" "Suc j"] by simp
  qed
  have head: "set xs \<inter> set (concat xss) = {}"
  proof -
    have "set xs \<inter> set ys = {}" if "ys \<in> set xss" for ys
    proof -
      from that obtain j where "j < length xss" "xss ! j = ys"
        by (auto simp: in_set_conv_nth)
      then show ?thesis
        using Cons.prems [rule_format, of 0 "Suc j"] by simp
    qed
    then show ?thesis by auto
  qed
  have "card (set (concat (xs # xss))) = card (set xs \<union> set (concat xss))"
    by simp
  also have "\<dots> = card (set xs) + card (set (concat xss))"
    using head by (simp add: card_Un_disjoint)
  finally show ?case
    using Cons.IH [OF tail] by simp
qed

text \<open>
  C5: when every adapter's listing succeeds, with \<open>results\<close> the lists of the adapters
  in the order of the registry, the only outcome of \<open>GetLibraries\<close> is the response
  whose libraries are the converted concatenation of \<open>results\<close>. Its length is the sum
  of the lengths, and when the adapters' lists are disjoint from each other, its
  number of different libraries is the sum of the adapters' numbers.
\<close>

theorem GetLibraries_concatenates:
  assumes "map (\<lambda>(name, service). get_libraries service) services = map Inr results"
  shows "(GetLibraries services out \<longleftrightarrow>
            out = Inr \<lparr>libraries = map convert_library (concat results)\<rparr>) \<and>
         (GetLibraries services (Inr resp) \<longrightarrow>
            length (libraries resp) = (\<Sum>libs\<leftarrow>results. length libs) \<and>
            ((\<forall>i<length results. \<forall>j<length results. i \<noteq> j \<longrightarrow>
                 set (results ! i) \<inter> set (results ! j) = {}) \<longrightarrow>
             card (set (libraries resp)) = (\<Sum>libs\<leftarrow>results. card (set libs))))"
proof -
  have outcomes: "map (\<lambda>p. get_libraries (snd p)) services = map Inr results"
    using assms by (simp add: case_prod_unfold)
  have only: "map (\<lambda>p. get_libraries (snd p)) services = map Inr results' \<longleftrightarrow> results' = results"
    for results'
    using outcomes by (auto simp: inj_map_eq_map)
  have outcome: "GetLibraries services out \<longleftrightarrow>
      out = Inr \<lparr>libraries = map convert_library (concat results)\<rparr>" for out
  proof (cases out)
    case (Inl e)
    have "\<not> GetLibraries services (Inl e)"
    proof
      assume "GetLibraries services (Inl e)"
      then obtain p where "p \<in> set services" and "get_libraries (snd p) = Inl e"
        by (auto simp: GetLibraries_Inl_iff)
      then have "Inl e \<in> set (map (\<lambda>p. get_libraries (snd p)) services)"
        by force
      then show False
        by (auto simp: outcomes)
    qed
    then show ?thesis
      using Inl by simp
  next
    case (Inr resp')
    then show ?thesis
      by (simp add: GetLibraries_Inr_iff only)
  qed
  have inj: "inj_on convert_library A" for A :: "'a ServiceLibrary set"
    by (rule inj_onI) (rule convert_library_inj)
  have counts: "length (libraries resp) = (\<Sum>libs\<leftarrow>results. length libs) \<and>
      ((\<forall>i<length results. \<forall>j<length results. i \<noteq> j \<longrightarrow>
           set (results ! i) \<inter> set (results ! j) = {}) \<longrightarrow>
       card (set (libraries resp)) = (\<Sum>libs\<leftarrow>results. card (set libs)))"
    if "GetLibraries services (Inr resp)"
  proof -
    from that have resp: "libraries resp = map convert_library (concat results)"
      using outcome [of "Inr resp"] by simp
    have "card (set (libraries resp)) = card (set (concat results))"
      unfolding resp set_map by (rule card_image [OF inj])
    then show ?thesis
      using card_concat_disjoint [of results] by (simp add: resp length_concat)
  qed
  show ?thesis
    using outcome [of out] counts by blast
qed


theorem GetLibraries_concatenates_witness:
  "map (\<lambda>(name, service). get_libraries service) [(''a'', example_a), (''b'', example_b)] =
     map Inr [[example_library ''a:1'', example_library ''a:2''], [example_library ''b:1'']] \<and>
   GetLibraries [(''a'', example_a), (''b'', example_b)]
     (Inr \<lparr>libraries = map convert_library
        [example_library ''a:1'', example_library ''a:2'', example_library ''b:1'']\<rparr>) \<and>
   map wire_id (map convert_library
        [example_library ''a:1'', example_library ''a:2'', example_library ''b:1'']) =
     [''a:1'', ''a:2'', ''b:1'']"
  using GetLibraries_concatenates [of "[(''a'', example_a), (''b'', example_b)]"
      "[[example_library ''a:1'', example_library ''a:2''], [example_library ''b:1'']]"
      "Inr \<lparr>libraries = map convert_library
        [example_library ''a:1'', example_library ''a:2'', example_library ''b:1'']\<rparr>"]
  by (simp add: example_a_def example_b_def example_library_def convert_library_def)

section \<open>Properties of streaming search\<close>

lemma service_ids_of_eq:
  "service_ids_of library_ids = Inr ((\<lambda>library_id. takeWhile (\<lambda>c. c \<noteq> CHR '':'') library_id) ` library_ids)"
proof -
  have img: "namespaceOf ` library_ids = (\<lambda>library_id. Inr (takeWhile (\<lambda>c. c \<noteq> CHR '':'') library_id)) ` library_ids"
    by (simp add: namespaceOf_takeWhile)
  have "Inl IndexError \<notin> namespaceOf ` library_ids"
    unfolding img by blast
  then show ?thesis
    unfolding service_ids_of_def img by auto
qed

lemma search_calls_eq:
  "search_calls services request =
     Inr [(name, service, request_term request,
           {library_id \<in> set (request_library_ids request).
              startswith library_id (name @ '':'')}).
          (name, service) \<leftarrow> services,
          name \<in> (\<lambda>library_id. takeWhile (\<lambda>c. c \<noteq> CHR '':'') library_id) `
                   set (request_library_ids request)]"
  by (simp add: search_calls_def service_ids_of_eq Let_def)

lemma referenced_iff:
  "Inr name \<in> namespaceOf ` ids \<longleftrightarrow> name \<in> (\<lambda>library_id. takeWhile (\<lambda>c. c \<noteq> CHR '':'') library_id) ` ids"
  by (auto simp: namespaceOf_takeWhile)

lemma search_calls_adapters:
  "search_calls services request = Inr calls \<Longrightarrow>
   map (\<lambda>(name, service, keyword, ids). (name, service)) calls =
     filter (\<lambda>(name, service). Inr name \<in> namespaceOf ` set (request_library_ids request)) services"
  unfolding search_calls_eq referenced_iff
  by (induction services arbitrary: calls) auto

lemma search_calls_member:
  "search_calls services request = Inr calls \<Longrightarrow>
   (name, service, keyword, ids) \<in> set calls \<longleftrightarrow>
     (name, service) \<in> set services \<and>
     name \<in> (\<lambda>library_id. takeWhile (\<lambda>c. c \<noteq> CHR '':'') library_id) ` set (request_library_ids request) \<and>
     keyword = request_term request \<and>
     ids = {library_id \<in> set (request_library_ids request).
              startswith library_id (name @ '':'')}"
  unfolding search_calls_eq by auto

lemma merge_Nil: "merge [] (out, r) \<Longrightarrow> out = []"
  by (erule merge.cases) auto


lemma sum_mset_update:
  "i < length sources \<Longrightarrow> sources ! i = (x # xs, r) \<Longrightarrow>
   (\<Sum>s\<leftarrow>sources. mset (fst s)) = add_mset x (\<Sum>s\<leftarrow>sources[i := (xs, r)]. mset (fst s))"
proof (induction sources arbitrary: i)
  case Nil
  then show ?case by simp
next
  case (Cons s sources)
  then show ?case
    by (cases i) auto
qed

lemma merge_complete:
  "merge sources res \<Longrightarrow> \<forall>s \<in> set sources. snd s = None \<Longrightarrow>
   mset (fst res) = (\<Sum>s\<leftarrow>sources. mset (fst s)) \<and> (sources \<noteq> [] \<longrightarrow> snd res = None)"
proof (induction rule: merge.induct)
  case (merge_done sources n)
  have "sum_list (replicate n ({#} :: 'a multiset)) = {#}"
    by (induction n) auto
  with merge_done show ?case by simp
next
  case merge_no_source
  then show ?case by simp
next
  case (merge_item i sources x xs r out r')
  from merge_item.hyps(1,2) merge_item.prems have r: "r = None"
    by (metis nth_mem snd_conv)
  have "\<forall>s \<in> set (sources[i := (xs, r)]). snd s = None"
    using merge_item.prems r by (auto dest!: set_update_subset_insert [THEN subsetD])
  with merge_item.IH have "mset out = (\<Sum>s\<leftarrow>sources[i := (xs, r)]. mset (fst s))"
    and "sources \<noteq> [] \<longrightarrow> r' = None"
    by auto
  then show ?case
    using sum_mset_update [OF merge_item.hyps(1,2)] by simp
next
  case (merge_raise i sources e)
  then have "snd (sources ! i) = None"
    using nth_mem by blast
  with merge_raise show ?case by simp
qed

lemma merge_in_turn:
  "\<forall>s \<in> set sources. snd s = None \<Longrightarrow>
   merge (replicate n ([], None) @ sources) (concat (map fst sources), None)"
proof (induction sources arbitrary: n)
  case Nil
  have "merge (replicate n ([], None)) (([] :: 'a list), None)"
    by (rule merge_done [where n = n]) simp
  then show ?case by simp
next
  case (Cons s sources)
  obtain items where s: "s = (items, None)"
    using Cons.prems by (cases s) auto
  have rest: "merge (replicate (Suc n) ([], None) @ sources) (concat (map fst sources), None)"
    using Cons.IH [of "Suc n"] Cons.prems by simp
  have "merge (replicate n ([], None) @ (items, None) # sources)
          (items @ concat (map fst sources), None)"
  proof (induction items)
    case Nil
    show ?case
      using rest by (simp add: replicate_app_Cons_same)
  next
    case (Cons x items)
    have "merge ((replicate n ([], None) @ (x # items, None) # sources)[n := (items, None)])
            (items @ concat (map fst sources), None)"
      using Cons.IH by (simp add: list_update_append)
    then show ?case
      using merge_item [of n "replicate n ([], None) @ (x # items, None) # sources" x items None
          "items @ concat (map fst sources)" None]
      by (simp add: nth_append)
  qed
  then show ?case
    by (simp add: s)
qed

lemma merge_sequential:
  "\<forall>s \<in> set sources. snd s = None \<Longrightarrow> merge sources (concat (map fst sources), None)"
  using merge_in_turn [of sources 0] by simp


lemma Search_outcome:
  assumes "search_calls services request = Inr calls"
  shows "Search services request (responses, r) \<longleftrightarrow>
     (\<exists>merged. merge (map invoke calls) (merged, r) \<and>
        responses = map (\<lambda>entity. \<lparr>entities = [entity]\<rparr>) merged)"
proof
  assume "Search services request (responses, r)"
  then show "\<exists>merged. merge (map invoke calls) (merged, r) \<and>
        responses = map (\<lambda>entity. \<lparr>entities = [entity]\<rparr>) merged"
    using assms by (auto elim!: Search.cases)
next
  assume "\<exists>merged. merge (map invoke calls) (merged, r) \<and>
        responses = map (\<lambda>entity. \<lparr>entities = [entity]\<rparr>) merged"
  then show "Search services request (responses, r)"
    using Search_stream [OF assms] by auto
qed

text \<open>A merge of finite streams, and so a search, always has an outcome.\<close>

lemma pending_update:
  "i < length sources \<Longrightarrow> sources ! i = (x # xs, r) \<Longrightarrow>
   (\<Sum>s\<leftarrow>sources. length (fst s)) = Suc (\<Sum>s\<leftarrow>sources[i := (xs, r)]. length (fst s))"
proof (induction sources arbitrary: i)
  case Nil
  then show ?case by simp
next
  case (Cons s sources)
  then show ?case
    by (cases i) auto
qed

lemma merge_total: "\<exists>res. merge sources res"
proof (induction "\<Sum>s\<leftarrow>sources. length (fst s)" arbitrary: sources rule: less_induct)
  case less
  show ?case
  proof (cases "\<exists>i<length sources. fst (sources ! i) \<noteq> []")
    case True
    then obtain i where i: "i < length sources" and pending: "fst (sources ! i) \<noteq> []"
      by blast
    from pending obtain x xs where items: "fst (sources ! i) = x # xs"
      by (cases "fst (sources ! i)") auto
    define r where "r = snd (sources ! i)"
    have at: "sources ! i = (x # xs, r)"
      by (simp add: r_def prod_eq_iff items)
    have "(\<Sum>s\<leftarrow>sources[i := (xs, r)]. length (fst s)) < (\<Sum>s\<leftarrow>sources. length (fst s))"
      using pending_update [OF i at] by simp
    then obtain res where res: "merge (sources[i := (xs, r)]) res"
      using less.hyps by blast
    obtain out r' where "res = (out, r')"
      by (cases res)
    with res have "merge sources (x # out, r')"
      using merge_item [OF i at] by simp
    then show ?thesis ..
  next
    case False
    then have drained: "\<forall>i<length sources. fst (sources ! i) = []"
      by simp
    show ?thesis
    proof (cases "\<exists>i<length sources. snd (sources ! i) \<noteq> None")
      case True
      then obtain i e where i: "i < length sources" and e: "snd (sources ! i) = Some e"
        by auto
      have "sources ! i = ([], Some e)"
        using drained i e by (simp add: prod_eq_iff)
      with i have "merge sources ([], Some e)"
        by (rule merge_raise)
      then show ?thesis ..
    next
      case False
      have "sources = replicate (length sources) ([], None)"
      proof (rule replicate_eqI)
        show "length sources = length sources" ..
      next
        fix s
        assume "s \<in> set sources"
        then obtain i where "i < length sources" and "sources ! i = s"
          by (auto simp: in_set_conv_nth)
        with drained False show "s = ([], None)"
          by (auto simp: prod_eq_iff)
      qed
      then have "merge sources ([], None)"
        by (rule merge_done)
      then show ?thesis ..
    qed
  qed
qed

lemma Search_total: "\<exists>outcome. Search services request outcome"
proof -
  obtain calls where calls: "search_calls services request = Inr calls"
    by (simp add: search_calls_eq)
  obtain res where res: "merge (map invoke calls) res"
    using merge_total by blast
  obtain merged r where "res = (merged, r)"
    by (cases res)
  with res have "merge (map invoke calls) (merged, r)"
    by simp
  with calls have "Search services request ([\<lparr>entities = [entity]\<rparr>. entity \<leftarrow> merged], r)"
    by (rule Search_stream)
  then show ?thesis ..
qed

text \<open>
  The outcomes of a search are the merges of the streams that the selected adapters'
  \<open>search\<close> returns for the request's term and the ids that start with the adapter's
  name and \<open>":"\<close>.
\<close>

lemma invoked_sources:
  assumes "search_calls services request = Inr calls"
  shows "map invoke calls =
     [search service (request_term request)
        {library_id \<in> set (request_library_ids request). startswith library_id (name @ '':'')}.
      (name, service) \<leftarrow> services,
      Inr name \<in> namespaceOf ` set (request_library_ids request)]"
proof -
  have "calls = [(name, service, request_term request,
           {library_id \<in> set (request_library_ids request).
              startswith library_id (name @ '':'')}).
          (name, service) \<leftarrow> services,
          Inr name \<in> namespaceOf ` set (request_library_ids request)]"
    using assms unfolding search_calls_eq referenced_iff by simp
  then show ?thesis
    by (simp add: invoke_def map_concat comp_def case_prod_unfold if_distrib cong: if_cong)
qed

lemma Search_iff_merge:
  "Search services request outcome \<longleftrightarrow>
     (\<exists>merged r.
        merge [search service (request_term request)
                 {library_id \<in> set (request_library_ids request).
                    startswith library_id (name @ '':'')}.
               (name, service) \<leftarrow> services,
               Inr name \<in> namespaceOf ` set (request_library_ids request)] (merged, r) \<and>
        outcome = ([\<lparr>entities = [entity]\<rparr>. entity \<leftarrow> merged], r))"
proof -
  obtain calls where calls: "search_calls services request = Inr calls"
    by (simp add: search_calls_eq)
  obtain responses r where outcome: "outcome = (responses, r)"
    by (cases outcome)
  show ?thesis
    unfolding outcome Search_outcome [OF calls] invoked_sources [OF calls] by auto
qed


lemma selected_sources:
  "[search service (request_term request)
      {library_id \<in> set (request_library_ids request). startswith library_id (name @ '':'')}.
    (name, service) \<leftarrow> services,
    Inr name \<in> namespaceOf ` set (request_library_ids request)] =
   map (\<lambda>(name, service). search service (request_term request)
          {library_id \<in> set (request_library_ids request).
             startswith library_id (name @ '':'')})
     (filter (\<lambda>(name, service). Inr name \<in> namespaceOf ` set (request_library_ids request))
        services)"
  by (induction services) auto

lemma merge_items_subset:
  assumes "merge sources (merged, r)" and "\<forall>s \<in> set sources. snd s = None"
  shows "set merged = (\<Union>s \<in> set sources. set (fst s))"
proof -
  have "mset merged = (\<Sum>s\<leftarrow>sources. mset (fst s))"
    using merge_complete [OF assms] by simp
  then have "set merged = set_mset (\<Sum>s\<leftarrow>sources. mset (fst s))"
    by (metis set_mset_mset)
  also have "\<dots> = (\<Union>s \<in> set sources. set (fst s))"
    by (induction sources) auto
  finally show ?thesis .
qed

text \<open>
  C3: the outcomes of \<open>Search\<close> are exactly the merges of the streams of \<open>search\<close> of
  the registered adapters whose name is the namespace of one of the request's library
  ids, each called once and in the order of the registry; the \<open>search\<close> of no other
  adapter takes part, and \<open>Search\<close> never fails before its calls. With no library ids
  it calls no adapter, and its stream has no response.
\<close>

theorem Search_invokes_referenced_adapters:
  "(Search services request outcome \<longleftrightarrow>
      (\<exists>merged r.
         merge (map (\<lambda>(name, service). search service (request_term request)
                       {library_id \<in> set (request_library_ids request).
                          startswith library_id (name @ '':'')})
                  (filter (\<lambda>(name, service).
                             Inr name \<in> namespaceOf ` set (request_library_ids request))
                     services)) (merged, r) \<and>
         outcome = ([\<lparr>entities = [entity]\<rparr>. entity \<leftarrow> merged], r))) \<and>
   (\<exists>calls. search_calls services request = Inr calls \<and>
     map (\<lambda>(name, service, keyword, ids). (name, service)) calls =
       filter (\<lambda>(name, service). Inr name \<in> namespaceOf ` set (request_library_ids request))
         services \<and>
     (request_library_ids request = [] \<longrightarrow>
        calls = [] \<and> Search services request ([], None) \<and>
        (\<forall>responses r. Search services request (responses, r) \<longrightarrow> responses = [])))"
proof
  show "Search services request outcome \<longleftrightarrow>
      (\<exists>merged r.
         merge (map (\<lambda>(name, service). search service (request_term request)
                       {library_id \<in> set (request_library_ids request).
                          startswith library_id (name @ '':'')})
                  (filter (\<lambda>(name, service).
                             Inr name \<in> namespaceOf ` set (request_library_ids request))
                     services)) (merged, r) \<and>
         outcome = ([\<lparr>entities = [entity]\<rparr>. entity \<leftarrow> merged], r))"
    unfolding Search_iff_merge selected_sources ..
next
  obtain calls where calls: "search_calls services request = Inr calls"
    by (simp add: search_calls_eq)
  have "calls = [] \<and> Search services request ([], None) \<and>
        (\<forall>responses r. Search services request (responses, r) \<longrightarrow> responses = [])"
    if "request_library_ids request = []"
  proof -
    have "calls = []"
      using search_calls_adapters [OF calls] that by simp
    moreover have "merge (map invoke []) (([] :: 'b list), None)"
      using merge_done [of "[]" 0] by simp
    ultimately show ?thesis
      using Search_outcome [OF calls] by (auto dest: merge_Nil)
  qed
  then show "\<exists>calls. search_calls services request = Inr calls \<and>
     map (\<lambda>(name, service, keyword, ids). (name, service)) calls =
       filter (\<lambda>(name, service). Inr name \<in> namespaceOf ` set (request_library_ids request))
         services \<and>
     (request_library_ids request = [] \<longrightarrow>
        calls = [] \<and> Search services request ([], None) \<and>
        (\<forall>responses r. Search services request (responses, r) \<longrightarrow> responses = []))"
    using calls search_calls_adapters [OF calls] by blast
qed


theorem Search_invokes_referenced_adapters_witness:
  "Search [(''a'', example_echo ''a''), (''b'', example_echo ''b''), (''c'', example_echo ''c'')]
      \<lparr>request_term = ''foo'', request_library_ids = [''a:1'', ''b:9'']\<rparr>
      ([\<lparr>entities = [(''a'', ''foo'', {''a:1''})]\<rparr>, \<lparr>entities = [(''b'', ''foo'', {''b:9''})]\<rparr>],
       None) \<and>
   \<not> (\<exists>responses r keyword ids.
        Search [(''a'', example_echo ''a''), (''b'', example_echo ''b''),
                (''c'', example_echo ''c'')]
          \<lparr>request_term = ''foo'', request_library_ids = [''a:1'', ''b:9'']\<rparr> (responses, r) \<and>
        \<lparr>entities = [(''c'', keyword, ids)]\<rparr> \<in> set responses) \<and>
   Search [(''a'', example_echo ''a''), (''b'', example_echo ''b''), (''c'', example_echo ''c'')]
      \<lparr>request_term = ''foo'', request_library_ids = []\<rparr> ([], None)"
proof -
  let ?registry = "[(''a'', example_echo ''a''), (''b'', example_echo ''b''),
    (''c'', example_echo ''c'')]"
  let ?request = "\<lparr>request_term = ''foo'', request_library_ids = [''a:1'', ''b:9'']\<rparr>"
  let ?sources = "[([(''a'', ''foo'', {''a:1''})], None), ([(''b'', ''foo'', {''b:9''})], None)]"
  have selected: "filter (\<lambda>(name, service).
      Inr name \<in> namespaceOf ` set (request_library_ids ?request)) ?registry =
      [(''a'', example_echo ''a''), (''b'', example_echo ''b'')]"
    by (simp add: namespaceOf_takeWhile)
  have a: "{library_id \<in> set (request_library_ids ?request).
      startswith library_id (''a'' @ '':'')} = {''a:1''}"
    and b: "{library_id \<in> set (request_library_ids ?request).
      startswith library_id (''b'' @ '':'')} = {''b:9''}"
    by (auto simp: startswith_def)
  have sources: "map (\<lambda>(name, service). search service (request_term ?request)
      {library_id \<in> set (request_library_ids ?request). startswith library_id (name @ '':'')})
      (filter (\<lambda>(name, service).
         Inr name \<in> namespaceOf ` set (request_library_ids ?request)) ?registry) = ?sources"
    unfolding selected using a b by (simp add: example_echo_def)
  note tied = Search_invokes_referenced_adapters [of ?registry ?request, THEN conjunct1,
      unfolded sources]
  have "merge ?sources ([(''a'', ''foo'', {''a:1''}), (''b'', ''foo'', {''b:9''})], None)"
    using merge_sequential [of ?sources] by simp
  then have first: "Search ?registry ?request
      ([\<lparr>entities = [(''a'', ''foo'', {''a:1''})]\<rparr>, \<lparr>entities = [(''b'', ''foo'', {''b:9''})]\<rparr>],
       None)"
    unfolding tied
    by (intro exI [of _ "[(''a'', ''foo'', {''a:1''}), (''b'', ''foo'', {''b:9''})]"]
        exI [of _ None]) simp
  have second: "\<not> (\<exists>responses r keyword ids. Search ?registry ?request (responses, r) \<and>
        \<lparr>entities = [(''c'', keyword, ids)]\<rparr> \<in> set responses)"
  proof
    assume "\<exists>responses r keyword ids. Search ?registry ?request (responses, r) \<and>
        \<lparr>entities = [(''c'', keyword, ids)]\<rparr> \<in> set responses"
    then obtain merged r keyword ids where "merge ?sources (merged, r)"
      and "(''c'', keyword, ids) \<in> set merged"
      unfolding tied by auto
    then show False
      using merge_items_subset [of ?sources merged r] by simp
  qed
  have third: "Search ?registry \<lparr>request_term = ''foo'', request_library_ids = []\<rparr> ([], None)"
    using Search_invokes_referenced_adapters
      [of ?registry "\<lparr>request_term = ''foo'', request_library_ids = []\<rparr>" "([], None)",
        THEN conjunct2]
    by auto
  from first second third show ?thesis
    by blast
qed

text \<open>
  C7: when the stream of every called adapter completes, \<open>Search\<close> has an outcome, and
  in every outcome, whatever the interleaving, the entities of the responses are
  exactly the entities the adapters yielded, each as often as it was yielded, their
  number is the sum of the adapters' numbers, and every response holds one entity. With
  at least one adapter called the stream completes without an error.
\<close>

theorem Search_forwards_every_entity_once:
  assumes "search_calls services request = Inr calls"
    and "\<forall>call \<in> set calls. snd (invoke call) = None"
  shows "Search services request
           ([\<lparr>entities = [entity]\<rparr>. entity \<leftarrow> concat (map (\<lambda>call. fst (invoke call)) calls)],
            None) \<and>
    (\<forall>responses r. Search services request (responses, r) \<longrightarrow>
       mset (concat (map entities responses)) = (\<Sum>call\<leftarrow>calls. mset (fst (invoke call))) \<and>
       length responses = (\<Sum>call\<leftarrow>calls. length (fst (invoke call))) \<and>
       (\<forall>response \<in> set responses. length (entities response) = 1) \<and>
       (calls \<noteq> [] \<longrightarrow> r = None))"
proof (intro conjI allI impI)
  have complete: "\<forall>s \<in> set (map invoke calls). snd s = None"
    using assms(2) by simp
  show "Search services request
           ([\<lparr>entities = [entity]\<rparr>. entity \<leftarrow> concat (map (\<lambda>call. fst (invoke call)) calls)],
            None)"
    using merge_sequential [OF complete] Search_outcome [OF assms(1)]
    by (auto simp: comp_def)
  fix responses r
  assume "Search services request (responses, r)"
  then obtain merged where merged: "merge (map invoke calls) (merged, r)"
    and responses: "responses = map (\<lambda>entity. \<lparr>entities = [entity]\<rparr>) merged"
    using Search_outcome [OF assms(1)] by blast
  have unwrap: "concat (map entities responses) = merged"
    unfolding responses by (induction merged) auto
  have items: "mset merged = (\<Sum>call\<leftarrow>calls. mset (fst (invoke call)))"
    and finished: "calls \<noteq> [] \<longrightarrow> r = None"
    using merge_complete [OF merged complete] by (simp_all add: comp_def)
  show "mset (concat (map entities responses)) = (\<Sum>call\<leftarrow>calls. mset (fst (invoke call)))"
    by (simp add: unwrap items)
  have "length responses = size (mset merged)"
    by (simp add: responses)
  also have "\<dots> = (\<Sum>call\<leftarrow>calls. length (fst (invoke call)))"
    unfolding items by (induction calls) auto
  finally show "length responses = (\<Sum>call\<leftarrow>calls. length (fst (invoke call)))" .
  show "\<forall>response \<in> set responses. length (entities response) = 1"
    by (auto simp: responses)
  show "r = None" if "calls \<noteq> []"
    using finished that by simp
qed

theorem Search_forwards_every_entity_once_witness:
  "search_calls [(''a'', example_a), (''b'', example_b), (''c'', example_down)]
      \<lparr>request_term = ''foo'', request_library_ids = [''a:1'', ''b:9'']\<rparr> =
     Inr [(''a'', example_a, ''foo'', {''a:1''}), (''b'', example_b, ''foo'', {''b:9''})] \<and>
   invoke (''a'', example_a, ''foo'', {''a:1''}) = ([''x1'', ''x2''], None) \<and>
   invoke (''b'', example_b, ''foo'', {''b:9''}) = ([''y1''], None) \<and>
   Search [(''a'', example_a), (''b'', example_b), (''c'', example_down)]
      \<lparr>request_term = ''foo'', request_library_ids = [''a:1'', ''b:9'']\<rparr>
      ([\<lparr>entities = [''x1'']\<rparr>, \<lparr>entities = [''x2'']\<rparr>, \<lparr>entities = [''y1'']\<rparr>], None)"
proof -
  have calls: "search_calls [(''a'', example_a), (''b'', example_b), (''c'', example_down)]
      \<lparr>request_term = ''foo'', request_library_ids = [''a:1'', ''b:9'']\<rparr> =
     Inr [(''a'', example_a, ''foo'', {''a:1''}), (''b'', example_b, ''foo'', {''b:9''})]"
    by (auto simp: search_calls_eq startswith_def)
  have a: "invoke (''a'', example_a, ''foo'', {''a:1''}) = ([''x1'', ''x2''], None)"
    and b: "invoke (''b'', example_b, ''foo'', {''b:9''}) = ([''y1''], None)"
    by (simp_all add: invoke_def example_a_def example_b_def)
  show ?thesis
    using Search_forwards_every_entity_once [OF calls] calls a b by simp
qed


lemma takeWhile_has_no_sep: "sep \<notin> set (takeWhile (\<lambda>c. c \<noteq> sep) s)"
  by (induction s) auto

lemma startswith_compose:
  "startswith library_id (name @ '':'') \<Longrightarrow>
   library_id = compose name (removeprefix library_id (name @ '':''))"
  by (auto simp: startswith_def removeprefix_def compose_def prefix_def)

lemma startswith_namespaceOf:
  "CHR '':'' \<notin> set name \<Longrightarrow> startswith library_id (name @ '':'') \<Longrightarrow>
   namespaceOf library_id = Inr name"
  by (auto simp: startswith_def prefix_def namespaceOf_takeWhile takeWhile_no_sep)

lemma search_calls_arguments:
  assumes "search_calls services request = Inr calls"
    and "(name, service, keyword, ids) \<in> set calls"
  shows "(name, service) \<in> set services \<and> keyword = request_term request \<and>
    ids = {library_id \<in> set (request_library_ids request). startswith library_id (name @ '':'')} \<and>
    (\<forall>library_id \<in> ids.
       namespaceOf library_id = Inr name \<and>
       library_id = compose name (removeprefix library_id (name @ '':''))) \<and>
    (name = PREFIX \<longrightarrow>
       (\<forall>iterated. set iterated = ids \<longrightarrow> compose PREFIX ` set (search_manageCode iterated) = ids))"
proof -
  from assms have reg: "(name, service) \<in> set services"
    and sel: "name \<in> (\<lambda>library_id. takeWhile (\<lambda>c. c \<noteq> CHR '':'') library_id) `
                set (request_library_ids request)"
    and kw: "keyword = request_term request"
    and ids: "ids = {library_id \<in> set (request_library_ids request).
                      startswith library_id (name @ '':'')}"
    by (simp_all add: search_calls_member)
  from sel have no_sep: "CHR '':'' \<notin> set name"
    using takeWhile_has_no_sep by fastforce
  have each: "namespaceOf library_id = Inr name \<and>
       library_id = compose name (removeprefix library_id (name @ '':''))"
    if "library_id \<in> ids" for library_id
    using that ids no_sep startswith_namespaceOf startswith_compose by simp
  have posted: "compose PREFIX ` set (search_manageCode iterated) = ids"
    if "name = PREFIX" and "set iterated = ids" for iterated
  proof -
    have "compose PREFIX (removeprefix library_id ''seoul-seocho:'') = library_id"
      if "library_id \<in> ids" for library_id
      using each [OF that] \<open>name = PREFIX\<close> by (simp add: PREFIX_def)
    then show ?thesis
      unfolding search_manageCode_def using \<open>set iterated = ids\<close> by (auto simp: image_iff)
  qed
  show ?thesis
    using reg kw ids each posted by blast
qed

text \<open>
  C1, as the code has it: the outcomes of \<open>Search\<close> are the merges of the streams
  \<open>search(term, ids)\<close> of the selected adapters, where \<open>term\<close> is the request's term and
  \<open>ids\<close> are those library ids of the request that start with the adapter's name and
  \<open>":"\<close>, as they are, with the prefix still on them. Each id passed has the adapter's
  name as its namespace and is the composition of that name and its local part. The
  prefix is taken off by the adapter: the \<open>manageCode\<close> list the Seocho adapter posts
  holds the local parts of the ids it was passed.
\<close>

theorem Search_passes_prefixed_ids:
  "(Search services request outcome \<longleftrightarrow>
      (\<exists>merged r.
         merge [search service (request_term request)
                 {library_id \<in> set (request_library_ids request).
                    startswith library_id (name @ '':'')}.
               (name, service) \<leftarrow> services,
               Inr name \<in> namespaceOf ` set (request_library_ids request)] (merged, r) \<and>
         outcome = ([\<lparr>entities = [entity]\<rparr>. entity \<leftarrow> merged], r))) \<and>
   (search_calls services request = Inr calls \<longrightarrow>
    (adapter_name, adapter, keyword, ids) \<in> set calls \<longrightarrow>
      (adapter_name, adapter) \<in> set services \<and> keyword = request_term request \<and>
      ids = {library_id \<in> set (request_library_ids request).
               startswith library_id (adapter_name @ '':'')} \<and>
      (\<forall>library_id \<in> ids.
         namespaceOf library_id = Inr adapter_name \<and>
         library_id = compose adapter_name (removeprefix library_id (adapter_name @ '':''))) \<and>
      (adapter_name = PREFIX \<longrightarrow>
         (\<forall>iterated. set iterated = ids \<longrightarrow>
            compose PREFIX ` set (search_manageCode iterated) = ids)))"
  using Search_iff_merge [of services request outcome]
    search_calls_arguments [of services request calls adapter_name adapter keyword ids]
  by blast

theorem Search_passes_prefixed_ids_witness:
  "Search [(''a'', example_echo ''a''), (''b'', example_echo ''b''), (''c'', example_echo ''c'')]
      \<lparr>request_term = ''foo'', request_library_ids = [''a:1'', ''b:9'']\<rparr>
      ([\<lparr>entities = [(''a'', ''foo'', {''a:1''})]\<rparr>, \<lparr>entities = [(''b'', ''foo'', {''b:9''})]\<rparr>],
       None) \<and>
   \<not> Search [(''a'', example_echo ''a''), (''b'', example_echo ''b''), (''c'', example_echo ''c'')]
      \<lparr>request_term = ''foo'', request_library_ids = [''a:1'', ''b:9'']\<rparr>
      ([\<lparr>entities = [(''a'', ''foo'', {''1''})]\<rparr>, \<lparr>entities = [(''b'', ''foo'', {''9''})]\<rparr>],
       None) \<and>
   search_calls [(''a'', example_echo ''a''), (''b'', example_echo ''b''),
        (''c'', example_echo ''c'')]
      \<lparr>request_term = ''foo'', request_library_ids = [''a:1'', ''b:9'']\<rparr> =
     Inr [(''a'', example_echo ''a'', ''foo'', {''a:1''}),
          (''b'', example_echo ''b'', ''foo'', {''b:9''})] \<and>
   namespaceOf ''a:1'' = Inr ''a'' \<and>
   ''a:1'' = compose ''a'' (removeprefix ''a:1'' (''a'' @ '':''))"
proof -
  let ?registry = "[(''a'', example_echo ''a''), (''b'', example_echo ''b''),
    (''c'', example_echo ''c'')]"
  let ?request = "\<lparr>request_term = ''foo'', request_library_ids = [''a:1'', ''b:9'']\<rparr>"
  let ?sources = "[([(''a'', ''foo'', {''a:1''})], None), ([(''b'', ''foo'', {''b:9''})], None)]"
  have a: "{library_id \<in> set (request_library_ids ?request).
      startswith library_id (''a'' @ '':'')} = {''a:1''}"
    and b: "{library_id \<in> set (request_library_ids ?request).
      startswith library_id (''b'' @ '':'')} = {''b:9''}"
    by (auto simp: startswith_def)
  have sources: "[search service (request_term ?request)
      {library_id \<in> set (request_library_ids ?request). startswith library_id (name @ '':'')}.
      (name, service) \<leftarrow> ?registry,
      Inr name \<in> namespaceOf ` set (request_library_ids ?request)] = ?sources"
    using a b by (simp add: namespaceOf_takeWhile example_echo_def)
  have calls: "search_calls ?registry ?request =
     Inr [(''a'', example_echo ''a'', ''foo'', {''a:1''}),
          (''b'', example_echo ''b'', ''foo'', {''b:9''})]"
    using a b by (simp add: search_calls_eq)
  note tied = Search_passes_prefixed_ids [of ?registry ?request, THEN conjunct1,
      unfolded sources]
  note passed = Search_passes_prefixed_ids [of ?registry ?request _ _ "''a''" "example_echo ''a''"
      "''foo''" "{''a:1''}", THEN conjunct2, rule_format, OF calls]
  have "merge ?sources ([(''a'', ''foo'', {''a:1''}), (''b'', ''foo'', {''b:9''})], None)"
    using merge_sequential [of ?sources] by simp
  then have first: "Search ?registry ?request
      ([\<lparr>entities = [(''a'', ''foo'', {''a:1''})]\<rparr>, \<lparr>entities = [(''b'', ''foo'', {''b:9''})]\<rparr>],
       None)"
    unfolding tied
    by (intro exI [of _ "[(''a'', ''foo'', {''a:1''}), (''b'', ''foo'', {''b:9''})]"]
        exI [of _ None]) simp
  have second: "\<not> Search ?registry ?request
      ([\<lparr>entities = [(''a'', ''foo'', {''1''})]\<rparr>, \<lparr>entities = [(''b'', ''foo'', {''9''})]\<rparr>],
       None)"
  proof
    assume "Search ?registry ?request
      ([\<lparr>entities = [(''a'', ''foo'', {''1''})]\<rparr>, \<lparr>entities = [(''b'', ''foo'', {''9''})]\<rparr>],
       None)"
    then obtain merged where "merge ?sources (merged, None)"
      and "(''a'', ''foo'', {''1''}) \<in> set merged"
      unfolding tied by auto
    then show False
      using merge_items_subset [of ?sources merged None] by simp
  qed
  have third: "namespaceOf ''a:1'' = Inr ''a'' \<and>
      ''a:1'' = compose ''a'' (removeprefix ''a:1'' (''a'' @ '':''))"
    using passed by simp
  from first second calls third show ?thesis
    by blast
qed

text \<open>
  C1 as stated fails: for the term \<open>foo\<close> and the ids \<open>a:1\<close> and \<open>b:9\<close>, adapter \<open>a\<close> is
  passed \<open>{"a:1"}\<close> and adapter \<open>b\<close> is passed \<open>{"b:9"}\<close>, not \<open>{"1"}\<close> and \<open>{"9"}\<close>.
\<close>

theorem Search_strips_prefix_counterexample:
  "search_calls [(''a'', example_a), (''b'', example_b), (''c'', example_down)]
      \<lparr>request_term = ''foo'', request_library_ids = [''a:1'', ''b:9'']\<rparr> =
     Inr [(''a'', example_a, ''foo'', {''a:1''}), (''b'', example_b, ''foo'', {''b:9''})] \<and>
   {''a:1''} \<noteq> {''1''} \<and> {''b:9''} \<noteq> {''9''}"
  by (auto simp: search_calls_eq startswith_def)


lemma search_calls_bare_namespace:
  assumes "ns \<in> set (request_library_ids request)"
    and "CHR '':'' \<notin> set ns"
    and "(ns, service) \<in> set services"
  shows "\<exists>calls ids. search_calls services request = Inr calls \<and>
    (ns, service, request_term request, ids) \<in> set calls \<and>
    ids = {library_id \<in> set (request_library_ids request). startswith library_id (ns @ '':'')} \<and>
    ns \<notin> ids \<and>
    ((\<forall>library_id \<in> set (request_library_ids request). \<not> startswith library_id (ns @ '':'')) \<longrightarrow>
       ids = {} \<and> (\<forall>iterated. set iterated = ids \<longrightarrow> search_manageCode iterated = []))"
proof -
  obtain calls where calls: "search_calls services request = Inr calls"
    by (simp add: search_calls_eq)
  define ids where
    "ids = {library_id \<in> set (request_library_ids request). startswith library_id (ns @ '':'')}"
  have "takeWhile (\<lambda>c. c \<noteq> CHR '':'') ns = ns"
    using assms(2) by (auto simp: takeWhile_eq_all_conv)
  with assms(1) have "ns \<in> (\<lambda>library_id. takeWhile (\<lambda>c. c \<noteq> CHR '':'') library_id) `
                set (request_library_ids request)"
    by (metis image_eqI)
  with assms(3) have call: "(ns, service, request_term request, ids) \<in> set calls"
    unfolding search_calls_member [OF calls] ids_def by simp
  have "\<not> prefix (ns @ '':'') ns"
    using prefix_length_le [of "ns @ '':''" ns] by auto
  then have bare: "ns \<notin> ids"
    unfolding ids_def startswith_def by simp
  have none: "ids = {} \<and> (\<forall>iterated. set iterated = ids \<longrightarrow> search_manageCode iterated = [])"
    if no: "\<forall>library_id \<in> set (request_library_ids request). \<not> startswith library_id (ns @ '':'')"
  proof -
    have empty: "ids = {}"
      unfolding ids_def using no by blast
    have "search_manageCode iterated = []" if "set iterated = ids" for iterated
      using that empty by (simp add: search_manageCode_def)
    with empty show ?thesis by simp
  qed
  show ?thesis
  proof (intro exI conjI)
    show "search_calls services request = Inr calls" by (rule calls)
    show "(ns, service, request_term request, ids) \<in> set calls" by (rule call)
    show "ids = {library_id \<in> set (request_library_ids request).
                   startswith library_id (ns @ '':'')}" by (rule ids_def)
    show "ns \<notin> ids" by (rule bare)
    show "(\<forall>library_id \<in> set (request_library_ids request).
              \<not> startswith library_id (ns @ '':'')) \<longrightarrow>
       ids = {} \<and> (\<forall>iterated. set iterated = ids \<longrightarrow> search_manageCode iterated = [])"
      using none by blast
  qed
qed

text \<open>
  C10, as the code has it: when the request holds an id without \<open>":"\<close> that is the name
  of a registered adapter, \<open>Search\<close> does not reject it: its outcomes are the merges of
  the selected adapters' streams, and the stream of that adapter's \<open>search\<close> is among
  them. The set it is called with is the set of the request's ids that start with the
  name and \<open>":"\<close>; the bare id is never in it. The set is empty when no id of the
  request has that prefix, and the Seocho adapter then posts an empty \<open>manageCode\<close>
  list.
\<close>

theorem Search_bare_namespace_id:
  assumes "ns \<in> set (request_library_ids request)"
    and "CHR '':'' \<notin> set ns"
    and "(ns, service') \<in> set services"
  shows "(\<exists>calls ids. search_calls services request = Inr calls \<and>
      (ns, service', request_term request, ids) \<in> set calls \<and>
      ids = {library_id \<in> set (request_library_ids request).
               startswith library_id (ns @ '':'')} \<and>
      ns \<notin> ids \<and>
      ((\<forall>library_id \<in> set (request_library_ids request).
           \<not> startswith library_id (ns @ '':'')) \<longrightarrow>
         ids = {} \<and>
         (\<forall>iterated. set iterated = ids \<longrightarrow> search_manageCode iterated = []))) \<and>
    (Search services request outcome \<longleftrightarrow>
      (\<exists>merged r.
         merge [search service (request_term request)
                 {library_id \<in> set (request_library_ids request).
                    startswith library_id (name @ '':'')}.
               (name, service) \<leftarrow> services,
               Inr name \<in> namespaceOf ` set (request_library_ids request)] (merged, r) \<and>
         outcome = ([\<lparr>entities = [entity]\<rparr>. entity \<leftarrow> merged], r))) \<and>
    search service' (request_term request)
        {library_id \<in> set (request_library_ids request). startswith library_id (ns @ '':'')}
      \<in> set [search service (request_term request)
                 {library_id \<in> set (request_library_ids request).
                    startswith library_id (name @ '':'')}.
               (name, service) \<leftarrow> services,
               Inr name \<in> namespaceOf ` set (request_library_ids request)] \<and>
    ((\<forall>library_id \<in> set (request_library_ids request).
         \<not> startswith library_id (ns @ '':'')) \<longrightarrow>
       search service' (request_term request) {}
         \<in> set [search service (request_term request)
                 {library_id \<in> set (request_library_ids request).
                    startswith library_id (name @ '':'')}.
               (name, service) \<leftarrow> services,
               Inr name \<in> namespaceOf ` set (request_library_ids request)])"
proof -
  have "namespaceOf ns = Inr ns"
    using assms(2) by (auto simp: namespaceOf_takeWhile takeWhile_eq_all_conv)
  then have referenced: "Inr ns \<in> namespaceOf ` set (request_library_ids request)"
    using assms(1) by (metis image_eqI)
  have invoked: "search service' (request_term request)
        {library_id \<in> set (request_library_ids request). startswith library_id (ns @ '':'')}
      \<in> set [search service (request_term request)
                 {library_id \<in> set (request_library_ids request).
                    startswith library_id (name @ '':'')}.
               (name, service) \<leftarrow> services,
               Inr name \<in> namespaceOf ` set (request_library_ids request)]"
    unfolding selected_sources using assms(3) referenced by force
  have unscoped: "search service' (request_term request) {}
         \<in> set [search service (request_term request)
                 {library_id \<in> set (request_library_ids request).
                    startswith library_id (name @ '':'')}.
               (name, service) \<leftarrow> services,
               Inr name \<in> namespaceOf ` set (request_library_ids request)]"
    if "\<forall>library_id \<in> set (request_library_ids request).
         \<not> startswith library_id (ns @ '':'')"
  proof -
    from that have "{library_id \<in> set (request_library_ids request).
        startswith library_id (ns @ '':'')} = {}"
      by blast
    with invoked show ?thesis by simp
  qed
  show ?thesis
    using search_calls_bare_namespace [OF assms] Search_iff_merge [of services request outcome]
      invoked unscoped
    by blast
qed

theorem Search_bare_namespace_id_witness:
  "''seoul-seocho'' \<in> set [''seoul-seocho''] \<and> CHR '':'' \<notin> set ''seoul-seocho'' \<and>
   search_calls [(''seoul-seocho'', example_echo ''seoul-seocho'')]
      \<lparr>request_term = ''foo'', request_library_ids = [''seoul-seocho'']\<rparr> =
     Inr [(''seoul-seocho'', example_echo ''seoul-seocho'', ''foo'', {})] \<and>
   Search [(''seoul-seocho'', example_echo ''seoul-seocho'')]
      \<lparr>request_term = ''foo'', request_library_ids = [''seoul-seocho'']\<rparr>
      ([\<lparr>entities = [(''seoul-seocho'', ''foo'', {})]\<rparr>], None) \<and>
   search_manageCode [] = []"
proof -
  let ?registry = "[(''seoul-seocho'', example_echo ''seoul-seocho'')]"
  let ?request = "\<lparr>request_term = ''foo'', request_library_ids = [''seoul-seocho'']\<rparr>"
  let ?sources = "[([(''seoul-seocho'', ''foo'', ({} :: string set))], (None :: error option))]"
  have listed: "''seoul-seocho'' \<in> set (request_library_ids ?request)"
    and bare: "CHR '':'' \<notin> set ''seoul-seocho''"
    and registered: "(''seoul-seocho'', example_echo ''seoul-seocho'') \<in> set ?registry"
    by simp_all
  have none: "{library_id \<in> set (request_library_ids ?request).
      startswith library_id (''seoul-seocho'' @ '':'')} = {}"
    by (auto simp: startswith_def)
  have sources: "[search service (request_term ?request)
      {library_id \<in> set (request_library_ids ?request). startswith library_id (name @ '':'')}.
      (name, service) \<leftarrow> ?registry,
      Inr name \<in> namespaceOf ` set (request_library_ids ?request)] = ?sources"
    using none by (simp add: namespaceOf_takeWhile example_echo_def)
  have calls: "search_calls ?registry ?request =
     Inr [(''seoul-seocho'', example_echo ''seoul-seocho'', ''foo'', {})]"
    using none by (simp add: search_calls_eq)
  note tied = Search_bare_namespace_id [OF listed bare registered, THEN conjunct2,
      THEN conjunct1, unfolded sources]
  have "merge ?sources ([(''seoul-seocho'', ''foo'', {})], None)"
    using merge_sequential [of ?sources] by simp
  then have "Search ?registry ?request
      ([\<lparr>entities = [(''seoul-seocho'', ''foo'', {})]\<rparr>], None)"
    unfolding tied
    by (intro exI [of _ "[(''seoul-seocho'', ''foo'', {})]"] exI [of _ None]) simp
  with calls show ?thesis
    by (simp add: search_manageCode_def)
qed

text \<open>
  C10 as stated fails: with the ids \<open>seoul-seocho\<close> and \<open>seoul-seocho:MA\<close> the request
  holds the bare name, and the adapter is passed \<open>{"seoul-seocho:MA"}\<close>, not the empty
  set.
\<close>

theorem Search_bare_namespace_id_counterexample:
  "''seoul-seocho'' \<in> set [''seoul-seocho'', ''seoul-seocho:MA''] \<and>
   CHR '':'' \<notin> set ''seoul-seocho'' \<and>
   search_calls [(''seoul-seocho'', example_a)]
      \<lparr>request_term = ''foo'', request_library_ids = [''seoul-seocho'', ''seoul-seocho:MA'']\<rparr> =
     Inr [(''seoul-seocho'', example_a, ''foo'', {''seoul-seocho:MA''})] \<and>
   {''seoul-seocho:MA''} \<noteq> ({} :: string set)"
proof -
  have "{library_id \<in> set [''seoul-seocho'', ''seoul-seocho:MA''].
      startswith library_id (''seoul-seocho'' @ '':'')} = {''seoul-seocho:MA''}"
    by (auto simp: startswith_def)
  then show ?thesis
    by (simp add: search_calls_eq)
qed

section \<open>Properties of the Seoul Seocho adapter\<close>

text \<open>Every id the adapter makes has the adapter's name as its namespace.\<close>

lemma seocho_library_namespace:
  "lib \<in> set (seocho_get_libraries libList) \<Longrightarrow> namespaceOf (lib_id lib) = Inr PREFIX"
  by (auto simp: seocho_get_libraries_def compose_def PREFIX_def namespaceOf_takeWhile)

lemma search_entities_namespace:
  "entity \<in> set (fst (search_entities ext books)) \<Longrightarrow>
   h \<in> set (holding_summaries entity) \<Longrightarrow>
   namespaceOf (holding_library_id h) = Inr PREFIX"
proof (induction books arbitrary: entity)
  case Nil
  then show ?case by simp
next
  case (Cons b books)
  then show ?case
    by (auto simp: compose_def PREFIX_def namespaceOf_takeWhile split: sum.splits prod.splits)
qed

lemma parse_due_example:
  "parse_due example_externals (Some ''2024.01.15'') =
     Inr \<lparr>date = \<lparr>year = 2024, month = 1, day = 15\<rparr>\<rparr>"
  by code_simp

lemma parse_due_absent: "parse_due ext None = Inl AttributeError"
  by (simp add: parse_due_def)

lemma HoldingStatus_init_same: "HoldingStatus_init ext st = Inr st' \<Longrightarrow> st' = st"
  by (simp add: HoldingStatus_init_def split: if_splits)

lemma parse_state_variant:
  "parse_state ext b = Inr st \<Longrightarrow> variants_set st = 1"
  by (auto simp: parse_state_def variants_set_def Let_def
      dest!: HoldingStatus_init_same split: if_splits sum.splits)

lemma search_entities_status:
  "entity \<in> set (fst (search_entities ext books)) \<Longrightarrow>
   h \<in> set (holding_summaries entity) \<Longrightarrow>
   \<exists>b \<in> set books. parse_state ext b = Inr (status h)"
proof (induction books arbitrary: entity)
  case Nil
  then show ?case by simp
next
  case (Cons b books)
  then show ?case
    by (auto split: sum.splits prod.splits)
qed

text \<open>
  C9: whatever \<open>int\<close> and the field checks of the messages do, every status that
  \<open>_parse_state\<close> returns, and so the status of every holding summary of every entity a
  search yields, has exactly one of the three variants set, for every reservation
  count, loan status, working status and return date of the record.
\<close>

theorem HoldingStatus_one_variant:
  "(parse_state ext b = Inr st \<longrightarrow> variants_set st = 1) \<and>
   (\<forall>entity \<in> set (fst (search_entities ext books)).
      \<forall>h \<in> set (holding_summaries entity). variants_set (status h) = 1)"
proof (intro conjI impI ballI)
  assume "parse_state ext b = Inr st"
  then show "variants_set st = 1"
    by (rule parse_state_variant)
next
  fix entity h
  assume "entity \<in> set (fst (search_entities ext books))"
    and "h \<in> set (holding_summaries entity)"
  then obtain b' where "parse_state ext b' = Inr (status h)"
    using search_entities_status by blast
  then show "variants_set (status h) = 1"
    by (rule parse_state_variant)
qed

theorem HoldingStatus_one_variant_witness:
  "(case parse_state example_externals (example_book 0 LOAN_POSSIBLE ''on shelf'' None) of
      Inl e \<Rightarrow> False
    | Inr st \<Rightarrow> available st \<noteq> None \<and> \<not> is_requested st \<and> variants_set st = 1) \<and>
   (case parse_state example_externals
        (example_book 3 (LOAN_NOT_POSSIBLE @ ''(reserved)'') ON_LOAN (Some ''2024.01.15'')) of
      Inl e \<Rightarrow> False
    | Inr st \<Rightarrow> on_loan st \<noteq> None \<and> is_requested st \<and> variants_set st = 1) \<and>
   (case parse_state example_externals (example_book 0 LOAN_NOT_POSSIBLE ''in repair'' None) of
      Inl e \<Rightarrow> False
    | Inr st \<Rightarrow> unavailable st \<noteq> None \<and> variants_set st = 1) \<and>
   parse_state example_externals (example_book 0 LOAN_NOT_POSSIBLE ON_LOAN None) =
     Inl AttributeError \<and>
   (case search_entities example_externals
        [example_book 0 LOAN_POSSIBLE ''on shelf'' None,
         example_book 3 (LOAN_NOT_POSSIBLE @ ''(reserved)'') ON_LOAN (Some ''2024.01.15''),
         example_book 0 LOAN_NOT_POSSIBLE ''in repair'' None] of
      (found, r) \<Rightarrow>
        r = None \<and> length found = 3 \<and>
        list_all (\<lambda>entity. list_all (\<lambda>h. variants_set (status h) = 1)
          (holding_summaries entity)) found)"
proof -
  note defs = parse_state_def example_book_def Let_def startswith_def HoldingStatus_init_def
    example_externals_def
    LOAN_POSSIBLE_def LOAN_NOT_POSSIBLE_def ON_LOAN_def ON_INTERLIBRARY_LOAN_def
  let ?b1 = "example_book 0 LOAN_POSSIBLE ''on shelf'' None"
  let ?b2 = "example_book 3 (LOAN_NOT_POSSIBLE @ ''(reserved)'') ON_LOAN (Some ''2024.01.15'')"
  let ?b3 = "example_book 0 LOAN_NOT_POSSIBLE ''in repair'' None"
  have due: "parse_due \<lparr>py_int = example_int,
      field_in_range = (\<lambda>field n. - 2147483648 \<le> n \<and> n \<le> 2147483647)\<rparr>
      (Some ''2024.01.15'') = Inr \<lparr>date = \<lparr>year = 2024, month = 1, day = 15\<rparr>\<rparr>"
    using parse_due_example by (simp add: example_externals_def)
  obtain st1 where s1: "parse_state example_externals ?b1 = Inr st1"
    and a1: "available st1 \<noteq> None" and r1: "\<not> is_requested st1"
    by (simp add: defs)
  obtain st2 where s2: "parse_state example_externals ?b2 = Inr st2"
    and a2: "on_loan st2 \<noteq> None" and r2: "is_requested st2"
    by (simp add: defs due)
  obtain st3 where s3: "parse_state example_externals ?b3 = Inr st3"
    and a3: "unavailable st3 \<noteq> None"
    by (simp add: defs)
  have s4: "parse_state example_externals (example_book 0 LOAN_NOT_POSSIBLE ON_LOAN None) =
      Inl AttributeError"
    by (simp add: defs parse_due_absent)
  obtain found where found: "search_entities example_externals [?b1, ?b2, ?b3] = (found, None)"
    and three: "length found = 3"
    by (simp add: s1 s2 s3)
  note all = HoldingStatus_one_variant [of example_externals _ _ "[?b1, ?b2, ?b3]"]
  have "variants_set st1 = 1" "variants_set st2 = 1" "variants_set st3 = 1"
    using all [of ?b1 st1] all [of ?b2 st2] all [of ?b3 st3] s1 s2 s3
    by blast+
  moreover have "\<forall>entity \<in> set found.
      \<forall>h \<in> set (holding_summaries entity). variants_set (status h) = 1"
    using all [of ?b1 st1, THEN conjunct2] unfolding found fst_conv .
  then have "list_all (\<lambda>entity. list_all (\<lambda>h. variants_set (status h) = 1)
      (holding_summaries entity)) found"
    unfolding list_all_iff .
  ultimately show ?thesis
    unfolding found by (simp add: s1 s2 s3 s4 a1 a2 a3 r1 r2 three)
qed

end
